theory Spec2Isabelle
  imports Main "HOL-Library.Word"
begin

section \<open>Strings and bytes\<close>

text \<open>
  Go strings and byte slices are sequences of bytes. Strings are modelled as \<open>string\<close>
  (a list of 8-bit characters), the byte slices of the stream pump as lists of 8-bit words.
  The library functions of package \<open>strings\<close> and \<open>bytes\<close> that the source calls are
  modelled on ASCII text: \<open>ToLower\<close> maps the letters A-Z to a-z and leaves every other
  byte alone, \<open>TrimSpace\<close> strips the six ASCII white space characters. On text with bytes
  of 0x80 and above Go decodes UTF-8 first; no rune outside ASCII is mapped by Go's
  \<open>ToLower\<close> to a letter of the keywords compared here (none, auto, no, force, yes), so the
  comparisons with these keywords have the same outcome on every byte string.
\<close>

type_synonym byte = "8 word"

type_synonym error = string

definition toLowerC :: "char \<Rightarrow> char" where
  "toLowerC c =
     (let n = (of_char c :: nat) in if 65 \<le> n \<and> n \<le> 90 then char_of (n + 32) else c)"

definition toUpperC :: "char \<Rightarrow> char" where
  "toUpperC c =
     (let n = (of_char c :: nat) in if 97 \<le> n \<and> n \<le> 122 then char_of (n - 32) else c)"

definition ToLower :: "string \<Rightarrow> string" where
  "ToLower s = map toLowerC s"

definition isSpace :: "char \<Rightarrow> bool" where
  "isSpace c = (c \<in> set [CHR 0x09, CHR 0x0A, CHR 0x0B, CHR 0x0C, CHR 0x0D, CHR '' ''])"

definition TrimSpace :: "string \<Rightarrow> string" where
  "TrimSpace s = rev (dropWhile isSpace (rev (dropWhile isSpace s)))"

definition TrimRight :: "string \<Rightarrow> string \<Rightarrow> string" where
  "TrimRight s cutset = rev (dropWhile (\<lambda>c. c \<in> set cutset) (rev s))"

definition IndexAny :: "string \<Rightarrow> string \<Rightarrow> int" where
  "IndexAny s chars =
     (if \<exists>c \<in> set s. c \<in> set chars
      then int (length (takeWhile (\<lambda>c. c \<notin> set chars) s)) else - 1)"

definition IndexRune :: "string \<Rightarrow> char \<Rightarrow> int" where
  "IndexRune s r = IndexAny s [r]"

fun Join :: "string list \<Rightarrow> string \<Rightarrow> string" where
  "Join [] sep = []"
| "Join [x] sep = x"
| "Join (x # y # ys) sep = x @ sep @ Join (y # ys) sep"

text \<open>
  \<open>bytes.ReplaceAll s old new\<close>: every non-overlapping instance of \<open>old\<close> in \<open>s\<close>, found
  from left to right, is replaced by \<open>new\<close>. The source calls it with a non-empty \<open>old\<close>
  only; the model leaves \<open>s\<close> as it is when \<open>old\<close> is empty.
\<close>

function ReplaceAll :: "byte list \<Rightarrow> byte list \<Rightarrow> byte list \<Rightarrow> byte list" where
  "ReplaceAll [] old new = []"
| "ReplaceAll (b # bs) old new =
     (if old \<noteq> [] \<and> take (length old) (b # bs) = old
      then new @ ReplaceAll (drop (length old) (b # bs)) old new
      else b # ReplaceAll bs old new)"
  by pat_completeness auto
termination
  by (relation "measure (\<lambda>(s, old, new). length s)") auto

section \<open>Command-line arguments (args.go)\<close>

text \<open>
  \<open>sshOption\<close> holds a Go map from lower-cased keys to the values given for them, in the
  order given; the map is nil (\<open>None\<close>) until the first option is stored.
\<close>

record sshOption =
  options :: "(string \<rightharpoonup> string list) option"

text \<open>Only the fields of \<open>sshArgs\<close> that the functions below read are kept.\<close>

record sshArgs =
  Destination :: string
  Command :: string
  Argument :: "string list"
  DisableTTY :: bool
  ForceTTY :: bool
  Reconnect :: bool
  Option :: sshOption

text \<open>
  \<open>UnmarshalText\<close> parses one \<open>-o\<close> value, either \<open>key=value\<close> or \<open>key value\<close>, and
  appends the value to the list stored under the lower-cased key. \<open>splitOption\<close> is its
  first part (lines 95 to 112), which finds the key and the value or fails.
  \<open>UnmarshalText\<close> returns the updated receiver and the error (\<open>None\<close> for nil); on an
  error the receiver is unchanged.
\<close>

definition splitOption :: "string \<Rightarrow> error + (string \<times> string)" where
  "splitOption b =
     (let s = TrimSpace b;
          pos0 = IndexRune s (CHR ''='');
          pos = (if pos0 \<ge> 0
                 then (let p = IndexAny (TrimRight (take (nat pos0) s) [CHR '' '', CHR 0x09])
                                 [CHR '' '', CHR 0x09]
                       in if p > 0 then p else pos0)
                 else IndexAny s [CHR '' '', CHR 0x09])
      in if pos < 0 then Inl (''invalid option: '' @ s)
         else
           (let key = TrimSpace (take (nat pos) s);
                val = TrimSpace (drop (nat pos + 1) s)
            in if key = [] \<or> val = [] then Inl (''invalid option: '' @ s)
               else Inr (key, val)))"

definition UnmarshalText :: "sshOption \<Rightarrow> string \<Rightarrow> sshOption \<times> error option" where
  "UnmarshalText opts b =
     (case splitOption b of
        Inl e \<Rightarrow> (opts, Some e)
      | Inr (key, val) \<Rightarrow>
          (let m = (case options opts of None \<Rightarrow> Map.empty | Some m \<Rightarrow> m);
               k = ToLower key;
               old = (case m k of None \<Rightarrow> [] | Some vs \<Rightarrow> vs)
           in (opts\<lparr>options := Some (m(k \<mapsto> old @ [val]))\<rparr>, None)))"

text \<open>
  The argument parser calls \<open>UnmarshalText\<close> once for every \<open>-o\<close> on the command line, in
  command-line order, on the same receiver, and gives up at the first error.
\<close>

fun unmarshalAll :: "sshOption \<Rightarrow> string list \<Rightarrow> sshOption \<times> error option" where
  "unmarshalAll opts [] = (opts, None)"
| "unmarshalAll opts (b # bs) =
     (case UnmarshalText opts b of
        (opts', None) \<Rightarrow> unmarshalAll opts' bs
      | (opts', Some e) \<Rightarrow> (opts', Some e))"

definition get :: "sshOption \<Rightarrow> string \<Rightarrow> string" where
  "get opts opt =
     (case options opts of
        None \<Rightarrow> []
      | Some m \<Rightarrow>
          (let values = (case m (ToLower opt) of None \<Rightarrow> [] | Some vs \<Rightarrow> vs)
           in if length values = 0 then [] else values ! 0))"

definition getAll :: "sshOption \<Rightarrow> string \<Rightarrow> string list" where
  "getAll opts opt =
     (case options opts of
        None \<Rightarrow> []
      | Some m \<Rightarrow> (case m (ToLower opt) of None \<Rightarrow> [] | Some vs \<Rightarrow> vs))"

section \<open>Resolving the remote command and the pty request (main.go)\<close>

text \<open>
  \<open>getConfig\<close> (the lookup in the configuration files) is not part of the sources at hand;
  it is a parameter, from the destination and the key to the configured value. So is the
  package variable \<open>isTerminal\<close>. Each function returns the tuple of results that the Go
  function returns, the error last (\<open>None\<close> for nil).
\<close>

definition parseRemoteCommand ::
  "(string \<Rightarrow> string \<Rightarrow> string) \<Rightarrow> sshArgs \<Rightarrow> string \<times> error option" where
  "parseRemoteCommand getConfig args =
     (let command = get (Option args) ''RemoteCommand'' in
      if Command args \<noteq> [] \<and> command \<noteq> [] \<and> ToLower command \<noteq> ''none''
      then ([], Some ''cannot execute command-line and remote command'')
      else if Command args \<noteq> [] then
        (if length (Argument args) = 0 then (Command args, None)
         else (Command args @ '' '' @ Join (Argument args) '' '', None))
      else if ToLower command = ''none'' then ([], None)
      else if command \<noteq> [] then (command, None)
      else (getConfig (Destination args) ''RemoteCommand'', None))"

definition parseCmdAndTTY ::
  "(string \<Rightarrow> string \<Rightarrow> string) \<Rightarrow> bool \<Rightarrow> sshArgs \<Rightarrow> string \<times> bool \<times> error option" where
  "parseCmdAndTTY getConfig isTerminal args =
     (case parseRemoteCommand getConfig args of
        (cmd, Some err) \<Rightarrow> (cmd, False, Some err)
      | (cmd, None) \<Rightarrow>
          if DisableTTY args \<and> ForceTTY args then (cmd, False, Some ''cannot specify -t with -T'')
          else if DisableTTY args then (cmd, False, None)
          else if ForceTTY args then (cmd, True, None)
          else
            (let requestTTY = getConfig (Destination args) ''RequestTTY'';
                 l = ToLower requestTTY
             in if l = [] \<or> l = ''auto'' then (cmd, isTerminal \<and> cmd = [], None)
                else if l = ''no'' then (cmd, False, None)
                else if l = ''force'' then (cmd, True, None)
                else if l = ''yes'' then (cmd, isTerminal, None)
                else (cmd, False, Some (''unknown RequestTTY option: '' @ requestTTY))))"

section \<open>Background supervisor (main.go, background)\<close>

text \<open>
  The environment of a process is the list of its \<open>key=value\<close> entries, as pairs.
  \<open>exec.Cmd\<close> keeps the last entry of a key that occurs more than once in \<open>Env\<close>, so
  what a process started with the list \<open>e\<close> reads with \<open>os.Getenv\<close> is the last entry of
  the key in \<open>e\<close>, and the empty string when there is none.
\<close>

type_synonym env = "(string \<times> string) list"

definition Getenv :: "env \<Rightarrow> string \<Rightarrow> string" where
  "Getenv e k = (case map_of (rev e) k of None \<Rightarrow> [] | Some v \<Rightarrow> v)"

text \<open>
  What the supervisor sees of the world: every \<open>cmd.Start\<close> either fails with a message
  or starts a child, whose lifetime (\<open>time.Since(beginTime)\<close> after \<open>cmd.Wait\<close>, in
  nanoseconds) is observed in the monitor loop. The list of children is the script of one
  run. The supervisor's own effects are the events it produces: starting a child with a
  path, an argument vector and an environment (\<open>Start\<close>), coming back from \<open>cmd.Wait\<close>
  when that child has exited (\<open>Wait\<close>), and sleeping (\<open>Sleep\<close>).
\<close>

datatype child = StartFails string | Runs int

datatype event = Start string "string list" env | Wait | Sleep int

text \<open>
  \<open>Return parent err\<close> is a return of \<open>background\<close>; \<open>Panic\<close> is the index out of range
  of \<open>os.Args[0]\<close> on an empty argument vector; \<open>Blocked\<close> says that the script of
  children ended with the monitor loop still running.
\<close>

datatype outcome = Return bool "error option" | Panic | Blocked

definition Second :: int where
  "Second = 1000000000"

text \<open>Lines 47 to 56: the marker added to the environment of the child.\<close>

definition childEnv :: "env \<Rightarrow> bool \<Rightarrow> bool \<Rightarrow> env" where
  "childEnv environ reconnect monitor =
     (if reconnect \<and> \<not> monitor then environ @ [(''TRZSZ-SSH-BG-MONITOR'', ''TRUE'')]
      else environ @ [(''TRZSZ-SSH-BACKGROUND'', ''TRUE'')])"

text \<open>Lines 62 to 69: the loop over the argument vector, \<open>i\<close> the running index.\<close>

fun destLoop :: "string \<Rightarrow> string list \<Rightarrow> int \<Rightarrow> int \<times> int \<Rightarrow> int \<times> int" where
  "destLoop d [] i (idx, count) = (idx, count)"
| "destLoop d (arg # rest) i (idx, count) =
     destLoop d rest (i + 1) (if arg = d then (i, count + 1) else (idx, count))"

text \<open>
  Lines 58 to 74: the argument vector of the child. \<open>newArgs\<close> shares its array with
  \<open>os.Args\<close>, so the assignment \<open>newArgs[idx] = dest\<close> changes \<open>os.Args\<close> too, while
  \<open>append\<close> leaves the elements of \<open>os.Args\<close> alone. The result is the error, \<open>newArgs\<close>
  and \<open>os.Args\<close> as they are afterwards.
\<close>

definition relaunchArgs ::
  "string list \<Rightarrow> string \<Rightarrow> string \<Rightarrow> error option \<times> string list \<times> string list" where
  "relaunchArgs osArgs destination dest =
     (if destination = [] then (None, osArgs @ [dest], osArgs)
      else if destination \<noteq> dest then
        (case destLoop destination osArgs 0 (- 1, 0) of
           (idx, count) \<Rightarrow>
             if count \<noteq> 1
             then (Some (''don't know how to replace the destination: '' @ destination
                         @ '' => '' @ dest), osArgs, osArgs)
             else (None, osArgs[nat idx := dest], osArgs[nat idx := dest]))
      else (None, osArgs, osArgs))"

text \<open>Lines 76 to 102: starting the child and, for the monitor, restarting it.\<close>

fun superviseLoop ::
  "bool \<Rightarrow> string \<Rightarrow> string list \<Rightarrow> env \<Rightarrow> int \<Rightarrow> child list \<Rightarrow> event list \<times> outcome" where
  "superviseLoop monitor path newArgs cenv sleepTime [] = ([], Blocked)"
| "superviseLoop monitor path newArgs cenv sleepTime (StartFails e # cs) =
     ([], Return True (Some (''run in background failed: '' @ e)))"
| "superviseLoop monitor path newArgs cenv sleepTime (Runs lifetime # cs) =
     (if \<not> monitor then ([Start path newArgs cenv], Return True None)
      else if lifetime < 10 * Second then
        (let sleepTime' = (if sleepTime < 10 * Second then sleepTime + Second else sleepTime)
         in case superviseLoop monitor path newArgs cenv sleepTime' cs of
              (evs, r) \<Rightarrow> (Start path newArgs cenv # Wait # Sleep sleepTime' # evs, r))
      else
        (case superviseLoop monitor path newArgs cenv 0 cs of
           (evs, r) \<Rightarrow> (Start path newArgs cenv # Wait # evs, r)))"

definition background ::
  "env \<Rightarrow> string list \<Rightarrow> child list \<Rightarrow> sshArgs \<Rightarrow> string \<Rightarrow> event list \<times> outcome" where
  "background environ osArgs children args dest =
     (if Getenv environ ''TRZSZ-SSH-BACKGROUND'' = ''TRUE'' then ([], Return False None)
      else
        (let monitor = (Getenv environ ''TRZSZ-SSH-BG-MONITOR'' = ''TRUE'');
             cenv = childEnv environ (Reconnect args) monitor
         in case relaunchArgs osArgs (Destination args) dest of
              (Some err, newArgs, osArgs') \<Rightarrow> ([], Return True (Some err))
            | (None, newArgs, osArgs') \<Rightarrow>
                (case osArgs' of
                   [] \<Rightarrow> ([], Panic)
                 | path # _ \<Rightarrow> superviseLoop monitor path newArgs cenv 0 children)))"

section \<open>Cleanup registries (main.go)\<close>

text \<open>
  A callback is a function on the state of the program. The loop of \<open>cleanupOnExit\<close> and
  of \<open>cleanupForGC\<close> runs the index from \<open>len - 1\<close> down to 0: \<open>drain (Suc i)\<close> calls
  the callback at index \<open>i\<close> and goes on below it. The callbacks are taken not to change
  the registry that is being drained.
\<close>

fun drain :: "nat \<Rightarrow> ('s \<Rightarrow> 's) list \<Rightarrow> 's \<Rightarrow> 's" where
  "drain 0 fs s = s"
| "drain (Suc i) fs s = drain i fs ((fs ! i) s)"

definition cleanupOnExit :: "('s \<Rightarrow> 's) list \<Rightarrow> 's \<Rightarrow> 's" where
  "cleanupOnExit onExitFuncs s = drain (length onExitFuncs) onExitFuncs s"

definition cleanupForGC :: "('s \<Rightarrow> 's) list \<Rightarrow> 's \<Rightarrow> 's" where
  "cleanupForGC cleanupAfterLogined s = drain (length cleanupAfterLogined) cleanupAfterLogined s"

text \<open>
  Modelled from the spec: the places that register a callback are not part of the sources
  at hand. A registry is "an ordered sequence of zero-argument callbacks", "append-only":
  registering puts the callback at the end of the slice.
\<close>

definition register :: "('s \<Rightarrow> 's) list \<Rightarrow> ('s \<Rightarrow> 's) \<Rightarrow> ('s \<Rightarrow> 's) list" where
  "register registry f = registry @ [f]"

definition registerAll :: "('s \<Rightarrow> 's) list \<Rightarrow> ('s \<Rightarrow> 's) list" where
  "registerAll fs = foldl register [] fs"

text \<open>A callback that leaves its name in a log, to observe the order of the calls.\<close>

definition logging :: "'a \<Rightarrow> 'a list \<Rightarrow> 'a list" where
  "logging x log = log @ [x]"

section \<open>Stream pump (wrapStdIO, forwardIO)\<close>

text \<open>
  The source of a pump is the script of what its \<open>Read\<close> calls return, one after the
  other: the bytes \<open>buffer[:n]\<close> and the error (nil, \<open>io.EOF\<close>, or another one). The sink
  is a script too: what each \<open>Write\<close> call returns, the number of bytes taken and whether
  an error came with it. The state of the sink records the bytes it took, the arguments
  of the \<open>Write\<close> calls, and the number of \<open>Close\<close> calls. A script that ends leaves the
  pump waiting in the call: \<open>WBlocked\<close> and \<open>Running\<close>.
\<close>

datatype rerr = NoErr | EOF | ReadErr

datatype wres = WOk nat | WErr nat

fun wcount :: "wres \<Rightarrow> nat" where
  "wcount (WOk n) = n"
| "wcount (WErr n) = n"

record writer =
  sink :: "byte list"
  calls :: "byte list list"
  closes :: nat

definition Write :: "wres \<Rightarrow> writer \<Rightarrow> byte list \<Rightarrow> writer" where
  "Write r w data = w\<lparr>sink := sink w @ take (wcount r) data, calls := calls w @ [data]\<rparr>"

definition Close :: "writer \<Rightarrow> writer" where
  "Close w = w\<lparr>closes := closes w + 1\<rparr>"

datatype wstatus = WDone | WFailed | WBlocked

text \<open>
  \<open>writeAll\<close>: the loop \<open>for m < l\<close> calls \<open>Write\<close> on what is left of the data and
  moves on by the number of bytes taken; the data argument is \<open>data[m:]\<close>.
\<close>

fun writeAll :: "wres list \<Rightarrow> writer \<Rightarrow> byte list \<Rightarrow> wstatus \<times> wres list \<times> writer" where
  "writeAll rs w [] = (WDone, rs, w)"
| "writeAll [] w (b # bs) = (WBlocked, [], w)"
| "writeAll (WErr n # rs) w (b # bs) = (WFailed, rs, Write (WErr n) w (b # bs))"
| "writeAll (WOk n # rs) w (b # bs) = writeAll rs (Write (WOk n) w (b # bs)) (drop n (b # bs))"

datatype status = Running | ExitEOF | ExitReadErr | ExitWriteErr

text \<open>
  The closure \<open>forwardIO\<close> of \<open>wrapStdIO\<close>, with the variables \<open>win\<close> and \<open>tty\<close> it
  captures. Every return and the \<open>break\<close> leave through the deferred \<open>writer.Close()\<close>.
\<close>

fun forwardIO ::
  "bool \<Rightarrow> bool \<Rightarrow> bool \<Rightarrow> (byte list \<times> rerr) list \<Rightarrow> wres list \<Rightarrow> writer \<Rightarrow> status \<times> writer" where
  "forwardIO win tty input [] rs w = (Running, w)"
| "forwardIO win tty input ((buf, err) # reads) rs w =
     (case (if length buf > 0
            then writeAll rs w
                   (if win \<and> \<not> tty
                    then (if input then ReplaceAll buf [13, 10] [10]
                          else ReplaceAll buf [10] [13, 10])
                    else buf)
            else (WDone, rs, w)) of
        (WFailed, rs1, w1) \<Rightarrow> (ExitWriteErr, Close w1)
      | (WBlocked, rs1, w1) \<Rightarrow> (Running, w1)
      | (WDone, rs1, w1) \<Rightarrow>
          if err = EOF then
            (if win \<and> tty \<and> input then
               (case rs1 of
                  [] \<Rightarrow> (Running, w1)
                | r # rs2 \<Rightarrow> forwardIO win tty input reads rs2 (Write r w1 [0x1A]))
             else (ExitEOF, Close w1))
          else if err \<noteq> NoErr then (ExitReadErr, Close w1)
          else forwardIO win tty input reads rs1 w1)"

section \<open>The claims in the words of the specification\<close>

text \<open>
  The backoff policy as the specification words it: after a child that lived for less
  than 10 seconds the delay grows by one second, capped at 10 seconds; after a child that
  lived for 10 seconds or longer the delay is zero. \<open>specDelays d ls\<close> lists the delay
  after each child of lifetimes \<open>ls\<close>, \<open>d\<close> being the delay before the first one.
\<close>

fun specDelays :: "int \<Rightarrow> int list \<Rightarrow> int list" where
  "specDelays d [] = []"
| "specDelays d (l # ls) =
     (let d' = (if l < 10 * Second then min (d + Second) (10 * Second) else 0)
      in d' # specDelays d' ls)"

text \<open>
  What the monitor does around one child: it starts it, waits for it to exit, and sleeps
  after a short life.
\<close>

definition specRound :: "string \<Rightarrow> string list \<Rightarrow> env \<Rightarrow> int \<Rightarrow> int \<Rightarrow> event list" where
  "specRound path newArgs cenv l d =
     Start path newArgs cenv # Wait # (if l < 10 * Second then [Sleep d] else [])"

fun sleeps :: "event list \<Rightarrow> int list" where
  "sleeps [] = []"
| "sleeps (Sleep d # evs) = d # sleeps evs"
| "sleeps (Start p a e # evs) = sleeps evs"
| "sleeps (Wait # evs) = sleeps evs"

fun startEnvs :: "event list \<Rightarrow> env list" where
  "startEnvs [] = []"
| "startEnvs (Sleep d # evs) = startEnvs evs"
| "startEnvs (Start p a e # evs) = e # startEnvs evs"
| "startEnvs (Wait # evs) = startEnvs evs"

fun startArgs :: "event list \<Rightarrow> string list list" where
  "startArgs [] = []"
| "startArgs (Sleep d # evs) = startArgs evs"
| "startArgs (Start p a e # evs) = a # startArgs evs"
| "startArgs (Wait # evs) = startArgs evs"

text \<open>
  The children of one supervisor live one at a time: along the events, a child is started
  only when none is alive, and \<open>cmd.Wait\<close> comes back only from the child that is alive;
  \<open>alive\<close> says whether a child is alive before the events.
\<close>

fun oneAtATime :: "bool \<Rightarrow> event list \<Rightarrow> bool" where
  "oneAtATime alive [] = True"
| "oneAtATime alive (Start p a e # evs) = (\<not> alive \<and> oneAtATime True evs)"
| "oneAtATime alive (Wait # evs) = (alive \<and> oneAtATime False evs)"
| "oneAtATime alive (Sleep d # evs) = oneAtATime alive evs"

text \<open>
  The bytes that a pump has read when it stops: the chunks of the reads up to and with
  the first read that returns an error.
\<close>

fun delivered :: "(byte list \<times> rerr) list \<Rightarrow> byte list list" where
  "delivered [] = []"
| "delivered ((buf, err) # reads) = buf # (if err = NoErr then delivered reads else [])"

text \<open>Every pair CR LF becomes LF; every LF becomes CR LF.\<close>

fun crlfToLf :: "byte list \<Rightarrow> byte list" where
  "crlfToLf [] = []"
| "crlfToLf [a] = [a]"
| "crlfToLf (a # b # bs) =
     (if a = 13 \<and> b = 10 then 10 # crlfToLf bs else a # crlfToLf (b # bs))"

definition lfToCrlf :: "byte list \<Rightarrow> byte list" where
  "lfToCrlf bs = concat (map (\<lambda>b. if b = 10 then [13, 10] else [b]) bs)"

text \<open>
  One string is a capitalization of another when they have the same length and differ
  only in the case of letters.
\<close>

definition capitalizationOf :: "string \<Rightarrow> string \<Rightarrow> bool" where
  "capitalizationOf k' k =
     list_all2 (\<lambda>c' c. c' = c \<or> c' = toUpperC c \<or> c' = toLowerC c) k' k"

text \<open>
  The values supplied for a key by a list of \<open>-o\<close> texts, in the order of the texts,
  keys compared without regard to case; and the keys that the texts supply.
\<close>

fun suppliedValues :: "string \<Rightarrow> string list \<Rightarrow> string list" where
  "suppliedValues k [] = []"
| "suppliedValues k (b # bs) =
     (case splitOption b of
        Inl e \<Rightarrow> suppliedValues k bs
      | Inr (key, val) \<Rightarrow>
          if ToLower key = ToLower k then val # suppliedValues k bs else suppliedValues k bs)"

fun suppliedKeys :: "string list \<Rightarrow> string list" where
  "suppliedKeys [] = []"
| "suppliedKeys (b # bs) =
     (case splitOption b of
        Inl e \<Rightarrow> suppliedKeys bs
      | Inr (key, val) \<Rightarrow> key # suppliedKeys bs)"

text \<open>Configurations for the examples: nothing configured, and one key configured.\<close>

definition noConfig :: "string \<Rightarrow> string \<Rightarrow> string" where
  "noConfig destination key = []"

definition oneConfig :: "string \<Rightarrow> string \<Rightarrow> string \<Rightarrow> string \<Rightarrow> string" where
  "oneConfig k v destination key = (if key = k then v else [])"

definition noOption :: sshOption where
  "noOption = \<lparr>options = None\<rparr>"

definition plainArgs :: sshArgs where
  "plainArgs = \<lparr>Destination = ''host'', Command = [], Argument = [], DisableTTY = False,
     ForceTTY = False, Reconnect = False, Option = noOption\<rparr>"

definition emptyWriter :: writer where
  "emptyWriter = \<lparr>sink = [], calls = [], closes = 0\<rparr>"

text \<open>
  What holds of \<open>sleepTime\<close> whenever the monitor loop tests it: a whole number of
  seconds from 0 to 10.
\<close>

definition wholeSeconds :: "int \<Rightarrow> bool" where
  "wholeSeconds d = (d mod Second = 0 \<and> 0 \<le> d \<and> d \<le> 10 * Second)"

section \<open>Cleanup registries drain in reverse order\<close>

lemma foldl_register: "foldl register acc fs = acc @ fs"
  by (induction fs arbitrary: acc) (simp_all add: register_def)

lemma registerAll_eq: "registerAll fs = fs"
  by (simp add: registerAll_def foldl_register)

lemma drain_take: "n \<le> length fs \<Longrightarrow> drain n fs s = fold (\<lambda>f. f) (rev (take n fs)) s"
proof (induction n arbitrary: s)
  case 0
  then show ?case by simp
next
  case (Suc n)
  then have "n < length fs" by simp
  then have "take (Suc n) fs = take n fs @ [fs ! n]"
    by (rule take_Suc_conv_app_nth)
  with Suc show ?case by simp
qed

lemma drain_all: "drain (length fs) fs s = fold (\<lambda>f. f) (rev fs) s"
  by (simp add: drain_take)

lemma fold_logging: "fold (\<lambda>f. f) (map logging xs) log = log @ xs"
  by (induction xs arbitrary: log) (simp_all add: logging_def)

lemma drain_logging: "drain (length xs) (map logging xs) [] = rev xs"
proof -
  have "drain (length (map logging xs)) (map logging xs) []
          = fold (\<lambda>f. f) (rev (map logging xs)) []"
    by (rule drain_all)
  also have "\<dots> = rev xs"
    using fold_logging [of "rev xs" "[]"] by (simp add: rev_map)
  finally show ?thesis by simp
qed

text \<open>
  Claim C8. Draining either registry (\<open>cleanupOnExit\<close> for the registry drained at exit,
  \<open>cleanupForGC\<close> for the one drained after login) calls the registered callbacks in the
  reverse of the order of registration: the state after the drain is the state after the
  callbacks of the reversed list, called one after the other. With callbacks that leave
  their name in a log the log reads in reverse order, and registering a, then b, then c
  calls c, then b, then a.
\<close>

theorem cleanup_reverse_order:
  "cleanupOnExit (registerAll fs) s = fold (\<lambda>f. f) (rev fs) s
   \<and> cleanupForGC (registerAll fs) s = fold (\<lambda>f. f) (rev fs) s
   \<and> cleanupOnExit (registerAll (map logging xs)) [] = rev xs
   \<and> cleanupForGC (registerAll (map logging xs)) [] = rev xs
   \<and> cleanupOnExit (register (register (register [] (logging a)) (logging b)) (logging c)) []
       = [c, b, a]
   \<and> cleanupForGC (register (register (register [] (logging a)) (logging b)) (logging c)) []
       = [c, b, a]"
  by (simp add: cleanupOnExit_def cleanupForGC_def registerAll_eq drain_all drain_logging
      register_def logging_def)

section \<open>The backoff of the monitor loop\<close>

lemma wholeSeconds_step:
  assumes "wholeSeconds d"
  shows "(if d < 10 * Second then d + Second else d) = min (d + Second) (10 * Second)"
    and "wholeSeconds (min (d + Second) (10 * Second))"
proof -
  from assms have "Second dvd d" and b: "0 \<le> d" "d \<le> 10 * Second"
    by (simp_all add: wholeSeconds_def mod_eq_0_iff_dvd)
  then obtain k where k: "d = Second * k" by (auto simp: dvd_def)
  have k0: "0 \<le> k" and k10: "k \<le> 10"
    using b k by (simp_all add: Second_def)
  show "(if d < 10 * Second then d + Second else d) = min (d + Second) (10 * Second)"
    using k k0 k10 by (auto simp: Second_def min_def)
  have "min (d + Second) (10 * Second) = Second * min (k + 1) 10"
    using k k0 k10 by (auto simp: Second_def min_def)
  moreover have "wholeSeconds (Second * min (k + 1) 10)"
    using k0 by (auto simp: wholeSeconds_def Second_def min_def)
  ultimately show "wholeSeconds (min (d + Second) (10 * Second))"
    by simp
qed

lemma wholeSeconds_0: "wholeSeconds 0"
  by (simp add: wholeSeconds_def Second_def)

lemma superviseLoop_events:
  "wholeSeconds d \<Longrightarrow>
   fst (superviseLoop True path argv cenv d (map Runs ls))
     = concat (map2 (specRound path argv cenv) ls (specDelays d ls))"
proof (induction ls arbitrary: d)
  case Nil
  then show ?case by simp
next
  case (Cons l ls)
  show ?case
  proof (cases "l < 10 * Second")
    case True
    let ?d' = "min (d + Second) (10 * Second)"
    have eq: "(if d < 10 * Second then d + Second else d) = ?d'"
      and w: "wholeSeconds ?d'"
      using wholeSeconds_step [OF Cons.prems] by simp_all
    from Cons.IH [OF w] True eq show ?thesis
      by (simp add: specRound_def Let_def case_prod_beta)
  next
    case False
    from Cons.IH [OF wholeSeconds_0] False show ?thesis
      by (simp add: specRound_def Let_def case_prod_beta)
  qed
qed

lemma superviseLoop_blocked:
  "snd (superviseLoop True path argv cenv d (map Runs ls)) = Blocked"
  by (induction ls arbitrary: d) (simp_all add: Let_def case_prod_beta)

lemma sleeps_fast:
  "\<forall>l \<in> set ls. l < 10 * Second \<Longrightarrow>
   sleeps (concat (map2 (specRound path argv cenv) ls (specDelays (min k 10 * Second) ls)))
     = map (\<lambda>i. min (k + 1 + int i) 10 * Second) [0..<length ls]"
proof (induction ls arbitrary: k)
  case Nil
  then show ?case by simp
next
  case (Cons l ls)
  have m: "min (min k 10 * Second + Second) (10 * Second) = min (k + 1) 10 * Second"
    by (auto simp: Second_def min_def)
  from Cons.IH [of "k + 1"] Cons.prems
  have ih: "sleeps (concat (map2 (specRound path argv cenv) ls (specDelays (min (k + 1) 10 * Second) ls)))
     = map (\<lambda>i. min (k + 1 + 1 + int i) 10 * Second) [0..<length ls]"
    by simp
  have l: "l < 10 * Second" using Cons.prems by simp
  have "sleeps (concat (map2 (specRound path argv cenv) (l # ls) (specDelays (min k 10 * Second) (l # ls))))
      = min (k + 1) 10 * Second # map (\<lambda>i. min (k + 1 + 1 + int i) 10 * Second) [0..<length ls]"
    using l ih by (simp add: specRound_def Let_def m)
  also have "\<dots> = map (\<lambda>i. min (k + 1 + int i) 10 * Second) [0..<length (l # ls)]"
    by (simp add: map_upt_Suc add.assoc del: upt_Suc)
  finally show ?case .
qed


text \<open>
  Claim C2. In the monitor loop (the process carries the monitor marker), for every
  sequence of children that start: the events of the supervisor are, child by child, the
  start of the child and its exit, followed, when the child lived for less than 10 seconds, by a sleep
  of the delay that the specification gives (the delay before, plus one second, at most
  10 seconds), and by no sleep, the delay back at zero, when the child lived for 10
  seconds or longer; the loop does not return. When every child lives for less than 10
  seconds the sleeps are of 1, 2, 3, ... seconds, up to 10.
\<close>

theorem backoff_policy:
  assumes "Getenv environ ''TRZSZ-SSH-BACKGROUND'' \<noteq> ''TRUE''"
    and "Getenv environ ''TRZSZ-SSH-BG-MONITOR'' = ''TRUE''"
    and "relaunchArgs osArgs (Destination args) dest = (None, newArgs, path # rest)"
  shows "fst (background environ osArgs (map Runs ls) args dest)
           = concat (map2 (specRound path newArgs (childEnv environ (Reconnect args) True))
                       ls (specDelays 0 ls))
         \<and> snd (background environ osArgs (map Runs ls) args dest) = Blocked
         \<and> ((\<forall>l \<in> set ls. l < 10 * Second) \<longrightarrow>
              sleeps (fst (background environ osArgs (map Runs ls) args dest))
                = map (\<lambda>i. min (1 + int i) 10 * Second) [0..<length ls])"
proof -
  let ?cenv = "childEnv environ (Reconnect args) True"
  have bg: "background environ osArgs (map Runs ls) args dest
              = superviseLoop True path newArgs ?cenv 0 (map Runs ls)"
    using assms by (simp add: background_def)
  have ev: "fst (superviseLoop True path newArgs ?cenv 0 (map Runs ls))
              = concat (map2 (specRound path newArgs ?cenv) ls (specDelays 0 ls))"
    by (rule superviseLoop_events [OF wholeSeconds_0])
  have sl: "(\<forall>l \<in> set ls. l < 10 * Second) \<longrightarrow>
      sleeps (concat (map2 (specRound path newArgs ?cenv) ls (specDelays 0 ls)))
        = map (\<lambda>i. min (1 + int i) 10 * Second) [0..<length ls]"
    using sleeps_fast [of ls path newArgs ?cenv 0] by simp
  show ?thesis
    unfolding bg using ev sl by (simp add: superviseLoop_blocked)
qed

theorem backoff_policy_witness:
  "fst (background [(''TRZSZ-SSH-BG-MONITOR'', ''TRUE'')] [''tssh'', ''-f'', ''host'']
          (map Runs [3 * Second, 3 * Second, 3 * Second]) plainArgs ''host'')
     = [Start ''tssh'' [''tssh'', ''-f'', ''host'']
          [(''TRZSZ-SSH-BG-MONITOR'', ''TRUE''), (''TRZSZ-SSH-BACKGROUND'', ''TRUE'')],
        Wait, Sleep 1000000000,
        Start ''tssh'' [''tssh'', ''-f'', ''host'']
          [(''TRZSZ-SSH-BG-MONITOR'', ''TRUE''), (''TRZSZ-SSH-BACKGROUND'', ''TRUE'')],
        Wait, Sleep 2000000000,
        Start ''tssh'' [''tssh'', ''-f'', ''host'']
          [(''TRZSZ-SSH-BG-MONITOR'', ''TRUE''), (''TRZSZ-SSH-BACKGROUND'', ''TRUE'')],
        Wait, Sleep 3000000000]
   \<and> sleeps (fst (background [(''TRZSZ-SSH-BG-MONITOR'', ''TRUE'')] [''tssh'', ''-f'', ''host'']
          (map Runs [3 * Second, 3 * Second, 3 * Second]) plainArgs ''host''))
     = [1000000000, 2000000000, 3000000000]
   \<and> sleeps (fst (background [(''TRZSZ-SSH-BG-MONITOR'', ''TRUE'')] [''tssh'', ''-f'', ''host'']
          (map Runs [3 * Second, 3 * Second, 12 * Second, 3 * Second]) plainArgs ''host''))
     = [1000000000, 2000000000, 1000000000]"
proof -
  have h1: "Getenv [(''TRZSZ-SSH-BG-MONITOR'', ''TRUE'')] ''TRZSZ-SSH-BACKGROUND'' \<noteq> ''TRUE''"
    by (simp add: Getenv_def)
  have h2: "Getenv [(''TRZSZ-SSH-BG-MONITOR'', ''TRUE'')] ''TRZSZ-SSH-BG-MONITOR'' = ''TRUE''"
    by (simp add: Getenv_def)
  have h3: "relaunchArgs [''tssh'', ''-f'', ''host''] (Destination plainArgs) ''host''
              = (None, [''tssh'', ''-f'', ''host''], ''tssh'' # [''-f'', ''host''])"
    by (simp add: relaunchArgs_def plainArgs_def)
  have h4: "\<forall>l \<in> set [3 * Second, 3 * Second, 3 * Second]. l < 10 * Second"
    by (simp add: Second_def)
  from backoff_policy [OF h1 h2 h3, of "[3 * Second, 3 * Second, 3 * Second]"] h4
  have a: "fst (background [(''TRZSZ-SSH-BG-MONITOR'', ''TRUE'')] [''tssh'', ''-f'', ''host'']
          (map Runs [3 * Second, 3 * Second, 3 * Second]) plainArgs ''host'')
     = [Start ''tssh'' [''tssh'', ''-f'', ''host'']
          [(''TRZSZ-SSH-BG-MONITOR'', ''TRUE''), (''TRZSZ-SSH-BACKGROUND'', ''TRUE'')],
        Wait, Sleep 1000000000,
        Start ''tssh'' [''tssh'', ''-f'', ''host'']
          [(''TRZSZ-SSH-BG-MONITOR'', ''TRUE''), (''TRZSZ-SSH-BACKGROUND'', ''TRUE'')],
        Wait, Sleep 2000000000,
        Start ''tssh'' [''tssh'', ''-f'', ''host'']
          [(''TRZSZ-SSH-BG-MONITOR'', ''TRUE''), (''TRZSZ-SSH-BACKGROUND'', ''TRUE'')],
        Wait, Sleep 3000000000]"
    by (simp add: specRound_def childEnv_def plainArgs_def Second_def)
  from backoff_policy [OF h1 h2 h3, of "[3 * Second, 3 * Second, 3 * Second]"] h4
  have b: "sleeps (fst (background [(''TRZSZ-SSH-BG-MONITOR'', ''TRUE'')] [''tssh'', ''-f'', ''host'']
          (map Runs [3 * Second, 3 * Second, 3 * Second]) plainArgs ''host''))
     = [1000000000, 2000000000, 3000000000]"
    by (simp add: specRound_def Second_def upt_rec)
  from backoff_policy [OF h1 h2 h3, of "[3 * Second, 3 * Second, 12 * Second, 3 * Second]"]
  have c: "sleeps (fst (background [(''TRZSZ-SSH-BG-MONITOR'', ''TRUE'')] [''tssh'', ''-f'', ''host'']
          (map Runs [3 * Second, 3 * Second, 12 * Second, 3 * Second]) plainArgs ''host''))
     = [1000000000, 2000000000, 1000000000]"
    by (simp add: specRound_def Second_def)
  from a b c show ?thesis by blast
qed

section \<open>The argument vector of the relaunch\<close>

lemma destLoop_count:
  "snd (destLoop d xs i (idx, c)) = c + int (count_list xs d)"
  by (induction xs arbitrary: i idx c) simp_all

lemma destLoop_notin:
  "d \<notin> set xs \<Longrightarrow> destLoop d xs i (idx, c) = (idx, c)"
  by (induction xs arbitrary: i) auto

lemma destLoop_append:
  "destLoop d (ys @ zs) i (idx, c)
     = destLoop d zs (i + int (length ys)) (destLoop d ys i (idx, c))"
proof (induction ys arbitrary: i idx c)
  case Nil
  then show ?case by simp
next
  case (Cons y ys)
  show ?case
    by (cases "y = d") (simp_all add: Cons.IH algebra_simps)
qed

lemma destLoop_unique:
  assumes "d \<notin> set ys" and "d \<notin> set zs"
  shows "destLoop d (ys @ d # zs) 0 (idx, c) = (int (length ys), c + 1)"
proof -
  have "destLoop d (ys @ d # zs) 0 (idx, c) = destLoop d (d # zs) (int (length ys)) (idx, c)"
    using assms(1) by (simp add: destLoop_append destLoop_notin)
  also have "\<dots> = (int (length ys), c + 1)"
    using assms(2) by (simp add: destLoop_notin)
  finally show ?thesis .
qed

lemma count_list_one_split:
  assumes "count_list xs d = 1"
  shows "\<exists>ys zs. xs = ys @ d # zs \<and> d \<notin> set ys \<and> d \<notin> set zs"
proof -
  from assms have "d \<in> set xs"
    by (metis count_list_0_iff zero_neq_one)
  then obtain ys zs where s: "xs = ys @ d # zs" "d \<notin> set ys"
    by (auto dest: split_list_first)
  with assms have "count_list zs d = 0"
    by (simp add: count_list_0_iff)
  then have "d \<notin> set zs" by (simp add: count_list_0_iff)
  with s show ?thesis by blast
qed

lemma startArgs_monitor:
  "set (startArgs (fst (superviseLoop True path newArgs cenv d cs))) \<subseteq> {newArgs}"
proof (induction cs arbitrary: d)
  case Nil
  then show ?case by simp
next
  case (Cons c cs)
  show ?case
  proof (cases c)
    case (StartFails e)
    then show ?thesis by simp
  next
    case (Runs l)
    with Cons.IH show ?thesis
      by (simp add: Let_def case_prod_beta)
  qed
qed

lemma startArgs_once:
  "set (startArgs (fst (superviseLoop False path newArgs cenv d cs))) \<subseteq> {newArgs}"
proof (cases cs)
  case Nil
  then show ?thesis by simp
next
  case (Cons c cs')
  then show ?thesis by (cases c) simp_all
qed

lemma startArgs_superviseLoop:
  "set (startArgs (fst (superviseLoop monitor path newArgs cenv d cs))) \<subseteq> {newArgs}"
  by (cases monitor) (simp_all only: startArgs_monitor startArgs_once)



lemma relaunch_once:
  assumes "d \<noteq> []" "d \<noteq> dest" "d \<notin> set ys" "d \<notin> set zs"
  shows "relaunchArgs (ys @ d # zs) d dest = (None, ys @ dest # zs, ys @ dest # zs)"
proof -
  have "destLoop d (ys @ d # zs) 0 (- 1, 0) = (int (length ys), 1)"
    using destLoop_unique [OF assms(3,4), of "- 1" 0] by simp
  then show ?thesis
    using assms(1,2) by (simp add: relaunchArgs_def)
qed

lemma relaunch_error:
  assumes "d \<noteq> []" "d \<noteq> dest" "count_list osArgs d \<noteq> 1"
  shows "relaunchArgs osArgs d dest
           = (Some (''don't know how to replace the destination: '' @ d @ '' => '' @ dest),
              osArgs, osArgs)"
proof -
  obtain idx c where dl: "destLoop d osArgs 0 (- 1, 0) = (idx, c)"
    by (cases "destLoop d osArgs 0 (- 1, 0)")
  with destLoop_count [of d osArgs 0 "- 1" 0] have "c = int (count_list osArgs d)" by simp
  with assms(3) have "c \<noteq> 1" by simp
  with dl assms(1,2) show ?thesis
    by (simp add: relaunchArgs_def)
qed


lemma background_startArgs:
  assumes "relaunchArgs osArgs (Destination args) dest = (None, newArgs, osArgs')"
  shows "set (startArgs (fst (background environ osArgs children args dest))) \<subseteq> {newArgs}"
proof (cases "Getenv environ ''TRZSZ-SSH-BACKGROUND'' = ''TRUE''")
  case True
  then show ?thesis by (simp add: background_def)
next
  case False
  show ?thesis
  proof (cases osArgs')
    case Nil
    with False assms show ?thesis by (simp add: background_def)
  next
    case (Cons p ps)
    have "background environ osArgs children args dest
            = superviseLoop (Getenv environ ''TRZSZ-SSH-BG-MONITOR'' = ''TRUE'') p newArgs
                (childEnv environ (Reconnect args)
                   (Getenv environ ''TRZSZ-SSH-BG-MONITOR'' = ''TRUE'')) 0 children"
      using False assms Cons by (simp add: background_def Let_def)
    then show ?thesis
      by (simp only: startArgs_superviseLoop)
  qed
qed

lemma background_error:
  assumes "Getenv environ ''TRZSZ-SSH-BACKGROUND'' \<noteq> ''TRUE''"
    and "relaunchArgs osArgs (Destination args) dest = (Some e, newArgs, osArgs')"
  shows "background environ osArgs children args dest = ([], Return True (Some e))"
  using assms by (simp add: background_def)


text \<open>
  Claim C3, amended. A process that does not carry the background marker relaunches
  itself with the resolved destination \<open>dest\<close>, different from the original destination.
  When the original destination is not empty and occurs exactly once in the argument
  vector, the new argument vector has \<open>dest\<close> at the place of that one occurrence and
  every other argument as it was, and every child is started with it. When the original
  destination is not empty and occurs zero times or more than once, \<open>background\<close>
  returns the error that it does not know how to replace the destination, the argument
  vector is as it was and no child is started. When the original destination is empty
  (none was given on the command line), \<open>dest\<close> is put at the end of the argument vector
  and no error comes from there.
\<close>

theorem relaunch_destination:
  assumes "Getenv environ ''TRZSZ-SSH-BACKGROUND'' \<noteq> ''TRUE''"
    and "Destination args \<noteq> dest"
  shows "(Destination args \<noteq> [] \<and> count_list osArgs (Destination args) = 1 \<longrightarrow>
            (\<exists>ys zs. osArgs = ys @ Destination args # zs
               \<and> Destination args \<notin> set ys \<and> Destination args \<notin> set zs
               \<and> relaunchArgs osArgs (Destination args) dest
                    = (None, ys @ dest # zs, ys @ dest # zs)
               \<and> set (startArgs (fst (background environ osArgs children args dest)))
                    \<subseteq> {ys @ dest # zs}))
       \<and> (Destination args \<noteq> [] \<and> count_list osArgs (Destination args) \<noteq> 1 \<longrightarrow>
            relaunchArgs osArgs (Destination args) dest
              = (Some (''don't know how to replace the destination: '' @ Destination args
                       @ '' => '' @ dest), osArgs, osArgs)
            \<and> background environ osArgs children args dest
              = ([], Return True
                   (Some (''don't know how to replace the destination: '' @ Destination args
                          @ '' => '' @ dest))))
       \<and> (Destination args = [] \<longrightarrow>
            relaunchArgs osArgs (Destination args) dest = (None, osArgs @ [dest], osArgs)
            \<and> set (startArgs (fst (background environ osArgs children args dest)))
                 \<subseteq> {osArgs @ [dest]})"
proof (intro conjI impI)
  assume a: "Destination args \<noteq> [] \<and> count_list osArgs (Destination args) = 1"
  then have c: "count_list osArgs (Destination args) = 1" and ne: "Destination args \<noteq> []"
    by simp_all
  obtain ys zs where s: "osArgs = ys @ Destination args # zs"
      "Destination args \<notin> set ys" "Destination args \<notin> set zs"
    using count_list_one_split [OF c] by (elim exE conjE) (rule that)
  have "relaunchArgs (ys @ Destination args # zs) (Destination args) dest
          = (None, ys @ dest # zs, ys @ dest # zs)"
    by (rule relaunch_once [OF ne assms(2) s(2) s(3)])
  then have r: "relaunchArgs osArgs (Destination args) dest
                  = (None, ys @ dest # zs, ys @ dest # zs)"
    by (simp only: s(1) [symmetric])
  from background_startArgs [OF r]
  have st: "set (startArgs (fst (background environ osArgs children args dest))) \<subseteq> {ys @ dest # zs}" .
  from s(1) s(2) s(3) r st
  have "osArgs = ys @ Destination args # zs
               \<and> Destination args \<notin> set ys \<and> Destination args \<notin> set zs
               \<and> relaunchArgs osArgs (Destination args) dest
                    = (None, ys @ dest # zs, ys @ dest # zs)
               \<and> set (startArgs (fst (background environ osArgs children args dest)))
                    \<subseteq> {ys @ dest # zs}"
    by (intro conjI)
  then show "\<exists>ys zs. osArgs = ys @ Destination args # zs
               \<and> Destination args \<notin> set ys \<and> Destination args \<notin> set zs
               \<and> relaunchArgs osArgs (Destination args) dest
                    = (None, ys @ dest # zs, ys @ dest # zs)
               \<and> set (startArgs (fst (background environ osArgs children args dest)))
                    \<subseteq> {ys @ dest # zs}"
    by (intro exI)
next
  assume a: "Destination args \<noteq> [] \<and> count_list osArgs (Destination args) \<noteq> 1"
  show r: "relaunchArgs osArgs (Destination args) dest
              = (Some (''don't know how to replace the destination: '' @ Destination args
                       @ '' => '' @ dest), osArgs, osArgs)"
    using a assms(2) by (intro relaunch_error) simp_all
  show "background environ osArgs children args dest
              = ([], Return True
                   (Some (''don't know how to replace the destination: '' @ Destination args
                          @ '' => '' @ dest)))"
    by (rule background_error [OF assms(1) r])
next
  assume a: "Destination args = []"
  show r: "relaunchArgs osArgs (Destination args) dest = (None, osArgs @ [dest], osArgs)"
    using a by (simp add: relaunchArgs_def)
  show "set (startArgs (fst (background environ osArgs children args dest))) \<subseteq> {osArgs @ [dest]}"
    by (rule background_startArgs [OF r])
qed


theorem relaunch_destination_witness:
  "(\<exists>ys zs. [''tssh'', ''-f'', ''alias''] = ys @ ''alias'' # zs
       \<and> ''alias'' \<notin> set ys \<and> ''alias'' \<notin> set zs
       \<and> relaunchArgs [''tssh'', ''-f'', ''alias''] ''alias'' ''host''
            = (None, ys @ ''host'' # zs, ys @ ''host'' # zs)
       \<and> set (startArgs (fst (background [] [''tssh'', ''-f'', ''alias''] [Runs 0]
                 (plainArgs\<lparr>Destination := ''alias''\<rparr>) ''host'')))
            \<subseteq> {ys @ ''host'' # zs})
   \<and> relaunchArgs [''tssh'', ''-f'', ''alias''] ''alias'' ''host''
        = (None, [''tssh'', ''-f'', ''host''], [''tssh'', ''-f'', ''host''])
   \<and> background [] [''tssh'', ''alias'', ''alias''] [Runs 0]
         (plainArgs\<lparr>Destination := ''alias''\<rparr>) ''host''
        = ([], Return True (Some ''don't know how to replace the destination: alias => host''))
   \<and> background [] [''tssh'', ''-f'', ''host''] [Runs 0]
         (plainArgs\<lparr>Destination := ''alias''\<rparr>) ''host''
        = ([], Return True (Some ''don't know how to replace the destination: alias => host''))"
proof -
  let ?args = "plainArgs\<lparr>Destination := ''alias''\<rparr>"
  have h1: "Getenv [] ''TRZSZ-SSH-BACKGROUND'' \<noteq> ''TRUE''"
    by (simp add: Getenv_def)
  have h2: "Destination ?args \<noteq> ''host''"
    by simp
  have d: "Destination ?args = ''alias''"
    by simp
  have c1: "Destination ?args \<noteq> [] \<and> count_list [''tssh'', ''-f'', ''alias''] (Destination ?args) = 1"
    by simp
  have c2: "Destination ?args \<noteq> [] \<and> count_list [''tssh'', ''alias'', ''alias''] (Destination ?args) \<noteq> 1"
    by simp
  have c0: "Destination ?args \<noteq> [] \<and> count_list [''tssh'', ''-f'', ''host''] (Destination ?args) \<noteq> 1"
    by simp
  note t1 = relaunch_destination [OF h1 h2, of "[''tssh'', ''-f'', ''alias'']" "[Runs 0]",
      THEN conjunct1, THEN mp, OF c1]
  note t2 = relaunch_destination [OF h1 h2, of "[''tssh'', ''alias'', ''alias'']" "[Runs 0]",
      THEN conjunct2, THEN conjunct1, THEN mp, OF c2, THEN conjunct2]
  note t0 = relaunch_destination [OF h1 h2, of "[''tssh'', ''-f'', ''host'']" "[Runs 0]",
      THEN conjunct2, THEN conjunct1, THEN mp, OF c0, THEN conjunct2]
  have e: "relaunchArgs [''tssh'', ''-f'', ''alias''] ''alias'' ''host''
        = (None, [''tssh'', ''-f'', ''host''], [''tssh'', ''-f'', ''host''])"
    by (simp add: relaunchArgs_def)
  show ?thesis
    using t1 t2 t0 e unfolding d by simp
qed

text \<open>
  The claim as it was stated fails for the empty destination: it occurs zero times in
  the argument vector of \<open>tssh -f\<close>, and \<open>background\<close> returns no error but starts the
  child with the resolved destination at the end of the arguments.
\<close>

theorem relaunch_empty_destination_counterexample:
  "count_list [''tssh'', ''-f''] [] = 0
   \<and> background [] [''tssh'', ''-f''] [Runs 0] (plainArgs\<lparr>Destination := []\<rparr>) ''host''
       = ([Start ''tssh'' [''tssh'', ''-f'', ''host''] [(''TRZSZ-SSH-BACKGROUND'', ''TRUE'')]],
          Return True None)"
  by (simp add: background_def relaunchArgs_def Getenv_def childEnv_def plainArgs_def)

section \<open>The markers in the environment of the child\<close>

lemma Getenv_append:
  "Getenv (e @ [(k, v)]) k' = (if k' = k then v else Getenv e k')"
  by (simp add: Getenv_def)

lemma startEnvs_monitor:
  "set (startEnvs (fst (superviseLoop True path newArgs cenv d cs))) \<subseteq> {cenv}"
proof (induction cs arbitrary: d)
  case Nil
  then show ?case by simp
next
  case (Cons c cs)
  show ?case
  proof (cases c)
    case (StartFails e)
    then show ?thesis by simp
  next
    case (Runs l)
    with Cons.IH show ?thesis
      by (simp add: Let_def case_prod_beta)
  qed
qed

lemma startEnvs_once:
  "set (startEnvs (fst (superviseLoop False path newArgs cenv d cs))) \<subseteq> {cenv}"
proof (cases cs)
  case Nil
  then show ?thesis by simp
next
  case (Cons c cs')
  then show ?thesis by (cases c) simp_all
qed

lemma startEnvs_superviseLoop:
  "set (startEnvs (fst (superviseLoop monitor path newArgs cenv d cs))) \<subseteq> {cenv}"
  by (cases monitor) (simp_all only: startEnvs_monitor startEnvs_once)

lemma background_startEnvs:
  "set (startEnvs (fst (background environ osArgs children args dest)))
     \<subseteq> {childEnv environ (Reconnect args) (Getenv environ ''TRZSZ-SSH-BG-MONITOR'' = ''TRUE'')}"
proof (cases "Getenv environ ''TRZSZ-SSH-BACKGROUND'' = ''TRUE''")
  case True
  then show ?thesis by (simp add: background_def)
next
  case False
  obtain err newArgs osArgs' where r: "relaunchArgs osArgs (Destination args) dest = (err, newArgs, osArgs')"
    by (cases "relaunchArgs osArgs (Destination args) dest")
  show ?thesis
  proof (cases err)
    case (Some e)
    with False r show ?thesis by (simp add: background_def)
  next
    case None
    show ?thesis
    proof (cases osArgs')
      case Nil
      with False r None show ?thesis by (simp add: background_def)
    next
      case (Cons p ps)
      have "background environ osArgs children args dest
            = superviseLoop (Getenv environ ''TRZSZ-SSH-BG-MONITOR'' = ''TRUE'') p newArgs
                (childEnv environ (Reconnect args)
                   (Getenv environ ''TRZSZ-SSH-BG-MONITOR'' = ''TRUE'')) 0 children"
        using False r None Cons by (simp add: background_def Let_def)
      then show ?thesis
        by (simp only: startEnvs_superviseLoop)
    qed
  qed
qed

lemma oneAtATime_monitor:
  "oneAtATime False (fst (superviseLoop True path newArgs cenv d cs))"
proof (induction cs arbitrary: d)
  case Nil
  then show ?case by simp
next
  case (Cons c cs)
  show ?case
  proof (cases c)
    case (StartFails e)
    then show ?thesis by simp
  next
    case (Runs l)
    with Cons.IH show ?thesis
      by (simp add: Let_def case_prod_beta)
  qed
qed

lemma oneAtATime_once:
  "oneAtATime False (fst (superviseLoop False path newArgs cenv d cs))"
proof (cases cs)
  case Nil
  then show ?thesis by simp
next
  case (Cons c cs')
  then show ?thesis by (cases c) simp_all
qed

lemma oneAtATime_superviseLoop:
  "oneAtATime False (fst (superviseLoop monitor path newArgs cenv d cs))"
  by (cases monitor) (simp_all only: oneAtATime_monitor oneAtATime_once)

lemma background_oneAtATime:
  "oneAtATime False (fst (background environ osArgs children args dest))"
proof (cases "Getenv environ ''TRZSZ-SSH-BACKGROUND'' = ''TRUE''")
  case True
  then show ?thesis by (simp add: background_def)
next
  case False
  obtain err newArgs osArgs' where r: "relaunchArgs osArgs (Destination args) dest = (err, newArgs, osArgs')"
    by (cases "relaunchArgs osArgs (Destination args) dest")
  show ?thesis
  proof (cases err)
    case (Some e)
    with False r show ?thesis by (simp add: background_def)
  next
    case None
    show ?thesis
    proof (cases osArgs')
      case Nil
      with False r None show ?thesis by (simp add: background_def)
    next
      case (Cons p ps)
      have "background environ osArgs children args dest
            = superviseLoop (Getenv environ ''TRZSZ-SSH-BG-MONITOR'' = ''TRUE'') p newArgs
                (childEnv environ (Reconnect args)
                   (Getenv environ ''TRZSZ-SSH-BG-MONITOR'' = ''TRUE'')) 0 children"
        using False r None Cons by (simp add: background_def Let_def)
      then show ?thesis
        by (simp only: oneAtATime_superviseLoop)
    qed
  qed
qed

text \<open>
  Claim C9, amended. A process that does not carry the background marker starts every
  child with its own environment and one more entry: the monitor marker when reconnect
  was requested and the process is not the monitor itself, the background marker
  otherwise. So the child carries the background marker unless it is to become the
  monitor, it carries the monitor marker when reconnect was requested or its parent is
  the monitor, and it carries both markers exactly when its parent is the monitor. A
  process that carries the background marker starts no child, whatever the monitor
  marker says: \<open>background\<close> tests the background marker first. So in a chain the
  monitor carries the monitor marker alone, and only the children it starts carry the
  background marker, one at a time: a supervisor starts a child only when no child of
  its is alive, the next one after \<open>cmd.Wait\<close> has come back from the one before.
\<close>

theorem relaunch_markers:
  assumes "Getenv environ ''TRZSZ-SSH-BACKGROUND'' \<noteq> ''TRUE''"
    and "monitor = (Getenv environ ''TRZSZ-SSH-BG-MONITOR'' = ''TRUE'')"
    and "cenv = childEnv environ (Reconnect args) monitor"
  shows "set (startEnvs (fst (background environ osArgs children args dest))) \<subseteq> {cenv}
       \<and> oneAtATime False (fst (background environ osArgs children args dest))
       \<and> (Getenv cenv ''TRZSZ-SSH-BACKGROUND'' = ''TRUE'') = (\<not> (Reconnect args \<and> \<not> monitor))
       \<and> (Getenv cenv ''TRZSZ-SSH-BG-MONITOR'' = ''TRUE'') = (Reconnect args \<or> monitor)
       \<and> (Getenv cenv ''TRZSZ-SSH-BACKGROUND'' = ''TRUE''
            \<and> Getenv cenv ''TRZSZ-SSH-BG-MONITOR'' = ''TRUE'') = monitor
       \<and> (Getenv cenv ''TRZSZ-SSH-BACKGROUND'' = ''TRUE'' \<longrightarrow>
            background cenv osArgs' children' args' dest' = ([], Return False None))
       \<and> (Reconnect args \<and> \<not> monitor \<longrightarrow>
            set (startEnvs (fst (background cenv osArgs' children' args dest')))
              \<subseteq> {cenv @ [(''TRZSZ-SSH-BACKGROUND'', ''TRUE'')]}
            \<and> oneAtATime False (fst (background cenv osArgs' children' args dest')))"
proof -
  have 1: "set (startEnvs (fst (background environ osArgs children args dest))) \<subseteq> {cenv}"
    unfolding assms(2,3) by (rule background_startEnvs)
  have 2: "(Getenv cenv ''TRZSZ-SSH-BACKGROUND'' = ''TRUE'') = (\<not> (Reconnect args \<and> \<not> monitor))"
    using assms(1) by (simp add: assms(3) childEnv_def Getenv_append)
  have 3: "(Getenv cenv ''TRZSZ-SSH-BG-MONITOR'' = ''TRUE'') = (Reconnect args \<or> monitor)"
    using assms(2) by (auto simp: assms(3) childEnv_def Getenv_append)
  have 4: "(Getenv cenv ''TRZSZ-SSH-BACKGROUND'' = ''TRUE''
            \<and> Getenv cenv ''TRZSZ-SSH-BG-MONITOR'' = ''TRUE'') = monitor"
    unfolding 2 3 by blast
  have 5: "Getenv cenv ''TRZSZ-SSH-BACKGROUND'' = ''TRUE'' \<longrightarrow>
            background cenv osArgs' children' args' dest' = ([], Return False None)"
    by (simp add: background_def)
  have 6: "oneAtATime False (fst (background environ osArgs children args dest))"
    by (rule background_oneAtATime)
  have 7: "Reconnect args \<and> \<not> monitor \<longrightarrow>
            set (startEnvs (fst (background cenv osArgs' children' args dest')))
              \<subseteq> {cenv @ [(''TRZSZ-SSH-BACKGROUND'', ''TRUE'')]}
            \<and> oneAtATime False (fst (background cenv osArgs' children' args dest'))"
  proof
    assume r: "Reconnect args \<and> \<not> monitor"
    with 3 have m: "Getenv cenv ''TRZSZ-SSH-BG-MONITOR'' = ''TRUE''" by simp
    have "childEnv cenv (Reconnect args) (Getenv cenv ''TRZSZ-SSH-BG-MONITOR'' = ''TRUE'')
            = cenv @ [(''TRZSZ-SSH-BACKGROUND'', ''TRUE'')]"
      using r m by (simp add: childEnv_def)
    with background_startEnvs [of cenv osArgs' children' args dest']
    have "set (startEnvs (fst (background cenv osArgs' children' args dest')))
              \<subseteq> {cenv @ [(''TRZSZ-SSH-BACKGROUND'', ''TRUE'')]}"
      by simp
    then show "set (startEnvs (fst (background cenv osArgs' children' args dest')))
              \<subseteq> {cenv @ [(''TRZSZ-SSH-BACKGROUND'', ''TRUE'')]}
            \<and> oneAtATime False (fst (background cenv osArgs' children' args dest'))"
      using background_oneAtATime [of cenv osArgs' children' args dest'] by (intro conjI)
  qed
  from 1 6 2 3 4 5 7 show ?thesis by (intro conjI)
qed

theorem relaunch_markers_witness:
  "set (startEnvs (fst (background [] [''tssh'', ''-f'', ''--reconnect'', ''host''] [Runs 0]
          (plainArgs\<lparr>Reconnect := True\<rparr>) ''host'')))
     \<subseteq> {[(''TRZSZ-SSH-BG-MONITOR'', ''TRUE'')]}
   \<and> Getenv [(''TRZSZ-SSH-BG-MONITOR'', ''TRUE'')] ''TRZSZ-SSH-BACKGROUND'' \<noteq> ''TRUE''
   \<and> Getenv [(''TRZSZ-SSH-BG-MONITOR'', ''TRUE'')] ''TRZSZ-SSH-BG-MONITOR'' = ''TRUE''
   \<and> set (startEnvs (fst (background [(''TRZSZ-SSH-BG-MONITOR'', ''TRUE'')]
          [''tssh'', ''-f'', ''--reconnect'', ''host''] [Runs 0, Runs 0]
          (plainArgs\<lparr>Reconnect := True\<rparr>) ''host'')))
     \<subseteq> {[(''TRZSZ-SSH-BG-MONITOR'', ''TRUE''), (''TRZSZ-SSH-BACKGROUND'', ''TRUE'')]}
   \<and> oneAtATime False (fst (background [(''TRZSZ-SSH-BG-MONITOR'', ''TRUE'')]
          [''tssh'', ''-f'', ''--reconnect'', ''host''] [Runs 0, Runs 0]
          (plainArgs\<lparr>Reconnect := True\<rparr>) ''host''))
   \<and> fst (background [(''TRZSZ-SSH-BG-MONITOR'', ''TRUE'')]
          [''tssh'', ''-f'', ''--reconnect'', ''host''] [Runs (11 * Second), Runs (12 * Second)]
          (plainArgs\<lparr>Reconnect := True\<rparr>) ''host'')
       = [Start ''tssh'' [''tssh'', ''-f'', ''--reconnect'', ''host'']
            [(''TRZSZ-SSH-BG-MONITOR'', ''TRUE''), (''TRZSZ-SSH-BACKGROUND'', ''TRUE'')],
          Wait,
          Start ''tssh'' [''tssh'', ''-f'', ''--reconnect'', ''host'']
            [(''TRZSZ-SSH-BG-MONITOR'', ''TRUE''), (''TRZSZ-SSH-BACKGROUND'', ''TRUE'')],
          Wait]
   \<and> background [(''TRZSZ-SSH-BG-MONITOR'', ''TRUE''), (''TRZSZ-SSH-BACKGROUND'', ''TRUE'')]
          [''tssh'', ''-f'', ''--reconnect'', ''host''] [Runs 0]
          (plainArgs\<lparr>Reconnect := True\<rparr>) ''host''
       = ([], Return False None)"
proof -
  let ?args = "plainArgs\<lparr>Reconnect := True\<rparr>"
  let ?argv = "[''tssh'', ''-f'', ''--reconnect'', ''host'']"
  let ?e1 = "[(''TRZSZ-SSH-BG-MONITOR'', ''TRUE'')]"
  let ?e2 = "[(''TRZSZ-SSH-BG-MONITOR'', ''TRUE''), (''TRZSZ-SSH-BACKGROUND'', ''TRUE'')]"
  have a1: "Getenv [] ''TRZSZ-SSH-BACKGROUND'' \<noteq> ''TRUE''"
    by (simp add: Getenv_def)
  have a2: "False = (Getenv [] ''TRZSZ-SSH-BG-MONITOR'' = ''TRUE'')"
    by (simp add: Getenv_def)
  have a3: "?e1 = childEnv [] (Reconnect ?args) False"
    by (simp add: childEnv_def)
  have b1: "Getenv ?e1 ''TRZSZ-SSH-BACKGROUND'' \<noteq> ''TRUE''"
    by (simp add: Getenv_def)
  have b2: "True = (Getenv ?e1 ''TRZSZ-SSH-BG-MONITOR'' = ''TRUE'')"
    by (simp add: Getenv_def)
  have b3: "?e2 = childEnv ?e1 (Reconnect ?args) True"
    by (simp add: childEnv_def)
  note A = relaunch_markers [OF a1 a2 a3, of ?argv "[Runs 0]" "''host''" ?argv "[Runs 0]" ?args "''host''"]
  note B = relaunch_markers [OF b1 b2 b3, of ?argv "[Runs 0, Runs 0]" "''host''" ?argv "[Runs 0]" ?args "''host''"]
  from A have 1: "set (startEnvs (fst (background [] ?argv [Runs 0] ?args ''host''))) \<subseteq> {?e1}"
    by (rule conjunct1)
  from A have 2: "Getenv ?e1 ''TRZSZ-SSH-BACKGROUND'' \<noteq> ''TRUE''"
    by simp
  from A have 3: "Getenv ?e1 ''TRZSZ-SSH-BG-MONITOR'' = ''TRUE''"
    by simp
  from B have 4: "set (startEnvs (fst (background ?e1 ?argv [Runs 0, Runs 0] ?args ''host''))) \<subseteq> {?e2}"
    by (rule conjunct1)
  from B have 5: "oneAtATime False (fst (background ?e1 ?argv [Runs 0, Runs 0] ?args ''host''))"
    by (rule conjunct2 [THEN conjunct1])
  have 6: "fst (background ?e1 ?argv [Runs (11 * Second), Runs (12 * Second)] ?args ''host'')
       = [Start ''tssh'' ?argv ?e2, Wait, Start ''tssh'' ?argv ?e2, Wait]"
    by (simp add: background_def relaunchArgs_def Getenv_def childEnv_def plainArgs_def
        Second_def Let_def)
  from B have 7: "background ?e2 ?argv [Runs 0] ?args ''host'' = ([], Return False None)"
    by simp
  from 1 2 3 4 5 6 7 show ?thesis by (intro conjI)
qed

text \<open>
  The claim as it was stated fails for the child of the monitor: the monitor's
  environment has the monitor marker, the child inherits it and gets the background
  marker on top.
\<close>

theorem both_markers_counterexample:
  "fst (background [(''TRZSZ-SSH-BG-MONITOR'', ''TRUE'')]
          [''tssh'', ''-f'', ''--reconnect'', ''host''] [Runs 0]
          (plainArgs\<lparr>Reconnect := True\<rparr>) ''host'')
     = [Start ''tssh'' [''tssh'', ''-f'', ''--reconnect'', ''host'']
          [(''TRZSZ-SSH-BG-MONITOR'', ''TRUE''), (''TRZSZ-SSH-BACKGROUND'', ''TRUE'')],
        Wait, Sleep 1000000000]
   \<and> Getenv [(''TRZSZ-SSH-BG-MONITOR'', ''TRUE''), (''TRZSZ-SSH-BACKGROUND'', ''TRUE'')]
         ''TRZSZ-SSH-BG-MONITOR'' = ''TRUE''
   \<and> Getenv [(''TRZSZ-SSH-BG-MONITOR'', ''TRUE''), (''TRZSZ-SSH-BACKGROUND'', ''TRUE'')]
         ''TRZSZ-SSH-BACKGROUND'' = ''TRUE''"
  by (simp add: background_def relaunchArgs_def Getenv_def childEnv_def plainArgs_def Second_def)

section \<open>The remote command and the pty request\<close>

text \<open>Facts to evaluate the parsing of \<open>-o\<close> texts on examples.\<close>

lemma eq_char_of_iff: "(c = char_of (n::nat)) = (take_bit 8 n = of_char c)"
  by (metis char_of_eq_iff)

lemmas option_eval = eq_char_of_iff UnmarshalText_def splitOption_def TrimSpace_def TrimRight_def
  IndexRune_def IndexAny_def isSpace_def ToLower_def toLowerC_def char_of_eq_iff get_def
  noOption_def Let_def








text \<open>
  Claim C1, amended. When the resolution of the command fails, \<open>parseCmdAndTTY\<close> returns
  that error and requests no pty. When it succeeds, the pty request is resolved exactly
  so: with both \<open>DisableTTY\<close> and \<open>ForceTTY\<close> an error; otherwise \<open>DisableTTY\<close> gives
  no pty and \<open>ForceTTY\<close> gives a pty, whatever is configured; otherwise the configured
  RequestTTY value decides, compared without regard to the case of its letters: empty or
  "auto" gives a pty when the local terminal is interactive and the command is empty,
  "no" gives none, "force" gives one, "yes" gives one when the local terminal is
  interactive, and any other value gives an error that names the value as it is
  configured.
\<close>

theorem pty_request:
  assumes "p = parseRemoteCommand getConfig args"
    and "v = getConfig (Destination args) ''RequestTTY''"
    and "r = parseCmdAndTTY getConfig isTerminal args"
  shows "(snd p \<noteq> None \<longrightarrow> r = (fst p, False, snd p))
       \<and> (snd p = None \<longrightarrow>
            (DisableTTY args \<and> ForceTTY args \<longrightarrow>
               r = (fst p, False, Some ''cannot specify -t with -T''))
          \<and> (DisableTTY args \<and> \<not> ForceTTY args \<longrightarrow> r = (fst p, False, None))
          \<and> (\<not> DisableTTY args \<and> ForceTTY args \<longrightarrow> r = (fst p, True, None))
          \<and> (\<not> DisableTTY args \<and> \<not> ForceTTY args \<longrightarrow>
                (ToLower v = [] \<or> ToLower v = ''auto'' \<longrightarrow>
                   r = (fst p, isTerminal \<and> fst p = [], None))
              \<and> (ToLower v = ''no'' \<longrightarrow> r = (fst p, False, None))
              \<and> (ToLower v = ''force'' \<longrightarrow> r = (fst p, True, None))
              \<and> (ToLower v = ''yes'' \<longrightarrow> r = (fst p, isTerminal, None))
              \<and> (ToLower v \<notin> {[], ''auto'', ''no'', ''force'', ''yes''} \<longrightarrow>
                   r = (fst p, False, Some (''unknown RequestTTY option: '' @ v)))))"
proof (cases p)
  case (Pair cmd err)
  show ?thesis
  proof (cases err)
    case (Some e)
    with Pair assms show ?thesis
      by (simp add: parseCmdAndTTY_def)
  next
    case None
    with Pair assms(1) have pr: "parseRemoteCommand getConfig args = (cmd, None)"
      by simp
    have "snd p = None" "fst p = cmd" using Pair None by simp_all
    then show ?thesis
      unfolding assms(3) assms(2)
      by (simp add: parseCmdAndTTY_def pr Let_def)
  qed
qed


theorem pty_request_witness:
  "parseCmdAndTTY noConfig True (plainArgs\<lparr>DisableTTY := True, ForceTTY := True\<rparr>)
     = ([], False, Some ''cannot specify -t with -T'')
   \<and> parseCmdAndTTY (oneConfig ''RequestTTY'' ''yes'') False (plainArgs\<lparr>ForceTTY := True\<rparr>)
     = ([], True, None)
   \<and> parseCmdAndTTY (oneConfig ''RequestTTY'' ''Yes'') True plainArgs = ([], True, None)
   \<and> parseCmdAndTTY (oneConfig ''RequestTTY'' ''auto'') True plainArgs = ([], True, None)
   \<and> parseCmdAndTTY (oneConfig ''RequestTTY'' ''auto'') True (plainArgs\<lparr>Command := ''ls''\<rparr>)
     = (''ls'', False, None)
   \<and> parseCmdAndTTY (oneConfig ''RequestTTY'' ''bogus'') True plainArgs
     = ([], False, Some ''unknown RequestTTY option: bogus'')
   \<and> parseCmdAndTTY noConfig True
        (plainArgs\<lparr>Command := ''ls'', ForceTTY := True,
           Option := fst (unmarshalAll noOption [''RemoteCommand=uptime''])\<rparr>)
     = ([], False, Some ''cannot execute command-line and remote command'')"
proof -
  note ev = parseRemoteCommand_def plainArgs_def noConfig_def oneConfig_def option_eval
  from pty_request [OF refl refl refl, of noConfig "plainArgs\<lparr>DisableTTY := True, ForceTTY := True\<rparr>" True]
  have 1: "parseCmdAndTTY noConfig True (plainArgs\<lparr>DisableTTY := True, ForceTTY := True\<rparr>)
     = ([], False, Some ''cannot specify -t with -T'')"
    by (simp add: ev)
  from pty_request [OF refl refl refl, of "oneConfig ''RequestTTY'' ''yes''" "plainArgs\<lparr>ForceTTY := True\<rparr>" False]
  have 2: "parseCmdAndTTY (oneConfig ''RequestTTY'' ''yes'') False (plainArgs\<lparr>ForceTTY := True\<rparr>)
     = ([], True, None)"
    by (simp add: ev)
  from pty_request [OF refl refl refl, of "oneConfig ''RequestTTY'' ''Yes''" plainArgs True]
  have 3: "parseCmdAndTTY (oneConfig ''RequestTTY'' ''Yes'') True plainArgs = ([], True, None)"
    by (simp add: ev)
  from pty_request [OF refl refl refl, of "oneConfig ''RequestTTY'' ''auto''" plainArgs True]
  have 4: "parseCmdAndTTY (oneConfig ''RequestTTY'' ''auto'') True plainArgs = ([], True, None)"
    by (simp add: ev)
  from pty_request [OF refl refl refl, of "oneConfig ''RequestTTY'' ''auto''" "plainArgs\<lparr>Command := ''ls''\<rparr>" True]
  have 5: "parseCmdAndTTY (oneConfig ''RequestTTY'' ''auto'') True (plainArgs\<lparr>Command := ''ls''\<rparr>)
     = (''ls'', False, None)"
    by (simp add: ev)
  from pty_request [OF refl refl refl, of "oneConfig ''RequestTTY'' ''bogus''" plainArgs True]
  have 6: "parseCmdAndTTY (oneConfig ''RequestTTY'' ''bogus'') True plainArgs
     = ([], False, Some ''unknown RequestTTY option: bogus'')"
    by (simp add: ev)
  from pty_request [OF refl refl refl, of noConfig "plainArgs\<lparr>Command := ''ls'', ForceTTY := True,
           Option := fst (unmarshalAll noOption [''RemoteCommand=uptime''])\<rparr>" True]
  have 7: "parseCmdAndTTY noConfig True
        (plainArgs\<lparr>Command := ''ls'', ForceTTY := True,
           Option := fst (unmarshalAll noOption [''RemoteCommand=uptime''])\<rparr>)
     = ([], False, Some ''cannot execute command-line and remote command'')"
    by (simp add: ev)
  from 1 2 3 4 5 6 7 show ?thesis by (intro conjI)
qed

text \<open>
  The claim as it was stated fails in two places. With \<open>ForceTTY\<close>, an inline command
  and \<open>-o RemoteCommand=uptime\<close> the result is the error of the command resolution and
  no pty, not a pty. With RequestTTY configured as "YES", a value other than the five
  of the claim, the result is no error but a pty on an interactive terminal.
\<close>

theorem pty_request_counterexample:
  "parseCmdAndTTY noConfig True
        (plainArgs\<lparr>Command := ''ls'', ForceTTY := True,
           Option := fst (unmarshalAll noOption [''RemoteCommand=uptime''])\<rparr>)
     = ([], False, Some ''cannot execute command-line and remote command'')
   \<and> ''YES'' \<noteq> ''yes''
   \<and> parseCmdAndTTY (oneConfig ''RequestTTY'' ''YES'') True plainArgs = ([], True, None)"
  by (simp add: parseCmdAndTTY_def parseRemoteCommand_def plainArgs_def noConfig_def
      oneConfig_def option_eval)

section \<open>Looking up the options given with -o\<close>

lemma toLowerC_idem: "toLowerC (toLowerC c) = toLowerC c"
  by (auto simp: toLowerC_def Let_def)

lemma toLowerC_toUpperC: "toLowerC (toUpperC c) = toLowerC c"
proof -
  have "of_char c < (256::nat)" by simp
  then show ?thesis
    by (auto simp: toLowerC_def toUpperC_def Let_def)
qed

lemma capitalizationOf_ToLower:
  "capitalizationOf k' k \<Longrightarrow> ToLower k' = ToLower k"
  unfolding capitalizationOf_def ToLower_def
  by (induction k' k rule: list_all2_induct) (auto simp: toLowerC_idem toLowerC_toUpperC)

lemma get_getAll: "get opts k = (case getAll opts k of [] \<Rightarrow> [] | v # vs \<Rightarrow> v)"
  by (simp add: get_def getAll_def Let_def split: option.splits list.splits)

lemma UnmarshalText_ok:
  assumes "splitOption b = Inr (key, v)"
  shows "snd (UnmarshalText opts b) = None"
  using assms by (auto simp: UnmarshalText_def getAll_def Let_def split: option.splits)

lemma UnmarshalText_getAll:
  assumes "splitOption b = Inr (key, v)"
  shows "getAll (fst (UnmarshalText opts b)) k
           = getAll opts k @ (if ToLower key = ToLower k then [v] else [])"
  using assms by (auto simp: UnmarshalText_def getAll_def Let_def split: option.splits)

lemma UnmarshalText_err:
  assumes "splitOption b = Inl e"
  shows "UnmarshalText opts b = (opts, Some e)"
  using assms by (simp add: UnmarshalText_def)

lemma unmarshalAll_getAll:
  "unmarshalAll opts bs = (opts', None) \<Longrightarrow> getAll opts' k = getAll opts k @ suppliedValues k bs"
proof (induction bs arbitrary: opts)
  case Nil
  then show ?case by simp
next
  case (Cons b bs)
  show ?case
  proof (cases "splitOption b")
    case (Inl e)
    with Cons.prems show ?thesis by (simp add: UnmarshalText_err)
  next
    case (Inr kv)
    obtain key v where kv: "kv = (key, v)" by (cases kv)
    with Inr have sp: "splitOption b = Inr (key, v)" by simp
    obtain o1 e1 where u: "UnmarshalText opts b = (o1, e1)" by (cases "UnmarshalText opts b")
    with UnmarshalText_ok [OF sp, of opts] UnmarshalText_getAll [OF sp, of opts k]
    have e1: "e1 = None"
      and g: "getAll o1 k = getAll opts k @ (if ToLower key = ToLower k then [v] else [])"
      by simp_all
    from Cons.prems u e1 have "unmarshalAll o1 bs = (opts', None)" by simp
    from Cons.IH [OF this] g sp show ?thesis by simp
  qed
qed

lemma suppliedValues_Nil:
  "ToLower k \<notin> set (map ToLower (suppliedKeys bs)) \<Longrightarrow> suppliedValues k bs = []"
proof (induction bs)
  case Nil
  then show ?case by simp
next
  case (Cons b bs)
  show ?case
  proof (cases "splitOption b")
    case (Inl e)
    with Cons show ?thesis by simp
  next
    case (Inr kv)
    obtain key v where kv: "kv = (key, v)" by (cases kv)
    with Inr Cons.prems have "ToLower key \<noteq> ToLower k"
      and "ToLower k \<notin> set (map ToLower (suppliedKeys bs))"
      by auto
    with Cons.IH Inr kv show ?thesis by simp
  qed
qed

lemma splitOption_value: "splitOption b = Inr (key, v) \<Longrightarrow> key \<noteq> [] \<and> v \<noteq> []"
  by (auto simp: splitOption_def Let_def split: if_splits)


lemma suppliedValues_Cons:
  "ToLower k \<in> set (map ToLower (suppliedKeys bs))
   \<Longrightarrow> \<exists>v vs. suppliedValues k bs = v # vs \<and> v \<noteq> []"
proof (induction bs)
  case Nil
  then show ?case by simp
next
  case (Cons b bs)
  show ?case
  proof (cases "splitOption b")
    case (Inl e)
    with Cons show ?thesis by simp
  next
    case (Inr kv)
    obtain key v where kv: "kv = (key, v)" by (cases kv)
    with Inr have sp: "splitOption b = Inr (key, v)" by simp
    show ?thesis
    proof (cases "ToLower key = ToLower k")
      case True
      with sp splitOption_value [OF sp] show ?thesis by simp
    next
      case False
      with Cons.prems sp have "ToLower k \<in> set (map ToLower (suppliedKeys bs))"
        by auto
      from Cons.IH [OF this] sp False show ?thesis by simp
    qed
  qed
qed

lemma getAll_noOption: "getAll noOption k = []"
  by (simp add: getAll_def noOption_def)

text \<open>
  Claim C10. After the \<open>-o\<close> texts of a command line have been stored, one after the
  other from the empty option set and without an error, \<open>get\<close> returns for every key
  the first of the values that the texts supply for it, keys compared without regard to
  case, and the empty string when there is none; it returns the same for every
  capitalization of the key; it returns the empty string for a key that no text
  supplies, and a non-empty string for a key that one supplies.
\<close>

theorem option_lookup:
  assumes "unmarshalAll noOption bs = (opts, None)"
  shows "get opts k = (case suppliedValues k bs of [] \<Rightarrow> [] | v # vs \<Rightarrow> v)
       \<and> (capitalizationOf k' k \<longrightarrow> get opts k' = get opts k)
       \<and> (ToLower k \<notin> set (map ToLower (suppliedKeys bs)) \<longrightarrow> get opts k = [])
       \<and> (ToLower k \<in> set (map ToLower (suppliedKeys bs)) \<longrightarrow> get opts k \<noteq> [])"
proof -
  have ga: "getAll opts k = suppliedValues k bs"
    using unmarshalAll_getAll [OF assms, of k] by (simp add: getAll_noOption)
  have 1: "get opts k = (case suppliedValues k bs of [] \<Rightarrow> [] | v # vs \<Rightarrow> v)"
    by (simp add: get_getAll ga)
  have 2: "capitalizationOf k' k \<longrightarrow> get opts k' = get opts k"
  proof
    assume "capitalizationOf k' k"
    then have "ToLower k' = ToLower k" by (rule capitalizationOf_ToLower)
    then show "get opts k' = get opts k" by (simp add: get_def cong: option.case_cong)
  qed
  have 3: "ToLower k \<notin> set (map ToLower (suppliedKeys bs)) \<longrightarrow> get opts k = []"
    unfolding 1 using suppliedValues_Nil [of k bs] by simp
  have 4: "ToLower k \<in> set (map ToLower (suppliedKeys bs)) \<longrightarrow> get opts k \<noteq> []"
  proof
    assume "ToLower k \<in> set (map ToLower (suppliedKeys bs))"
    from suppliedValues_Cons [OF this] obtain v vs
      where "suppliedValues k bs = v # vs" "v \<noteq> []" by blast
    then show "get opts k \<noteq> []" unfolding 1 by simp
  qed
  from 1 2 3 4 show ?thesis by (intro conjI)
qed


theorem option_lookup_witness:
  "get (fst (unmarshalAll noOption
          [''RemoteCommand uptime -p'', '' remotecommand = none '', ''Port=22'']))
     ''REMOTECOMMAND'' = ''uptime -p''
   \<and> get (fst (unmarshalAll noOption
          [''RemoteCommand uptime -p'', '' remotecommand = none '', ''Port=22'']))
     ''remoteCommand''
     = get (fst (unmarshalAll noOption
          [''RemoteCommand uptime -p'', '' remotecommand = none '', ''Port=22'']))
     ''RemoteCommand''
   \<and> get (fst (unmarshalAll noOption
          [''RemoteCommand uptime -p'', '' remotecommand = none '', ''Port=22'']))
     ''User'' = []"
proof -
  let ?bs = "[''RemoteCommand uptime -p'', '' remotecommand = none '', ''Port=22'']"
  let ?opts = "fst (unmarshalAll noOption ?bs)"
  have h: "unmarshalAll noOption ?bs = (?opts, None)"
    by (simp add: option_eval)
  have s1: "suppliedValues ''REMOTECOMMAND'' ?bs = [''uptime -p'', ''none'']"
    by (simp add: option_eval)
  have s2: "capitalizationOf ''remoteCommand'' ''RemoteCommand''"
    by (simp add: capitalizationOf_def toUpperC_def option_eval)
  have s3: "ToLower ''User'' \<notin> set (map ToLower (suppliedKeys ?bs))"
    by (simp add: option_eval)
  have "get ?opts ''REMOTECOMMAND''
          = (case suppliedValues ''REMOTECOMMAND'' ?bs of [] \<Rightarrow> [] | v # vs \<Rightarrow> v)"
    by (rule option_lookup [OF h, THEN conjunct1])
  also have "\<dots> = ''uptime -p''"
    by (simp only: s1 list.case)
  finally have 1: "get ?opts ''REMOTECOMMAND'' = ''uptime -p''" .
  have 2: "get ?opts ''remoteCommand'' = get ?opts ''RemoteCommand''"
    by (rule option_lookup [OF h, THEN conjunct2, THEN conjunct1, THEN mp, OF s2])
  have 3: "get ?opts ''User'' = []"
    by (rule option_lookup [OF h, THEN conjunct2, THEN conjunct2, THEN conjunct1, THEN mp, OF s3])
  from 1 2 3 show ?thesis by (intro conjI)
qed

end
